theory Spec2Isabelle
  imports Main "HOL-Library.Word" "HOL-Library.Char_ord"
begin

section \<open>The MML player face of Sensor Watch\<close>

text \<open>
  A shallow embedding of \<^verbatim>\<open>movement/watch_faces/demo/mml_player_face.c\<close>.

  \<^item> A score is a NUL-terminated C string. It is a \<^typ>\<open>string\<close> holding the bytes
    at and after the cursor; reading at the end of the list reads the terminator, and a NUL
    byte inside the list terminates the score in the same way. The code never moves the
    cursor past a NUL byte, so \<open>p++\<close> is \<^const>\<open>tl\<close> on a non-empty list.
  \<^item> \<open>uint8_t\<close>, \<open>uint16_t\<close> and \<open>uint32_t\<close> are words of that width. \<open>int\<close> and
    \<open>unsigned long\<close> have 32 bits on the watch (Cortex-M0+) and in its emulator.
  \<^item> The display, pixel and buzzer primitives of \<^verbatim>\<open>watch.h\<close> are calls into the
    hardware library. A function that calls them returns the list of calls it makes, in
    order.
\<close>

subsection \<open>Characters\<close>

definition NUL :: char where
  "NUL = CHR 0x00"

text \<open>\<open>*p\<close>\<close>

fun deref :: "string \<Rightarrow> char" where
  "deref [] = NUL"
| "deref (x # xs) = x"

text \<open>\<open>toupper\<close>, \<open>tolower\<close> and \<open>isdigit\<close> of \<^verbatim>\<open>ctype.h\<close> in the C locale.\<close>

definition toupper :: "char \<Rightarrow> char" where
  "toupper ch = (if CHR ''a'' \<le> ch \<and> ch \<le> CHR ''z'' then char_of (of_char ch - 32 :: nat) else ch)"

definition tolower :: "char \<Rightarrow> char" where
  "tolower ch = (if CHR ''A'' \<le> ch \<and> ch \<le> CHR ''Z'' then char_of (of_char ch + 32 :: nat) else ch)"

definition isdigit :: "char \<Rightarrow> bool" where
  "isdigit ch \<longleftrightarrow> CHR ''0'' \<le> ch \<and> ch \<le> CHR ''9''"

subsection \<open>Calls into the hardware library\<close>

text \<open>
  \<open>BuzzerNote\<close> is an enumeration of the hardware library's \<^verbatim>\<open>watch_buzzer.h\<close>: the
  notes of the frequency table, numbered from 0, and the rest after them. The face only
  casts an index to it, \<open>(BuzzerNote)idx\<close>, which is the constructor \<open>BUZZER_NOTE\<close> at
  that index, and names the rest.
\<close>

datatype BuzzerNote = BUZZER_NOTE int | BUZZER_NOTE_REST

text \<open>
  One constructor for each call that leaves the logic of the face, with the arguments of
  the call: the primitives of the hardware library, the default handler of the framework,
  and \<open>mml_delay_ms\<close>, the busy wait of the face on the real-time clock. That wait and
  \<open>watch_buzzer_play_note\<close> block for the given number of milliseconds; how long that
  lasts is a matter of real time, and what is kept here is the call and its duration.
\<close>

datatype hw_call =
    watch_display_string string nat
  | watch_set_pixel nat nat
  | watch_clear_pixel nat nat
  | watch_clear_display
  | watch_set_buzzer_off
  | watch_buzzer_play_note BuzzerNote "16 word"
  | mml_delay_ms "16 word"
  | movement_default_loop_handler

text \<open>
  \<open>display_note_char\<close> passes the two-byte array \<open>{ tolower(ch), 0 }\<close> as a string, to be
  drawn from digit 0.
\<close>

definition display_note_char :: "char \<Rightarrow> hw_call list" where
  "display_note_char ch =
     [watch_display_string (if tolower ch = NUL then [] else [tolower ch]) 0]"

subsection \<open>Note mapping\<close>

definition NOTE_INDEX :: "int \<Rightarrow> int \<Rightarrow> int" where
  "NOTE_INDEX octave semitone = octave * 12 + semitone - (1 * 12 + 9)"

text \<open>The \<open>switch\<close> of \<open>note_from_mml\<close>; \<open>None\<close> is its \<open>default\<close> branch.\<close>

definition letter_semitone :: "char \<Rightarrow> int option" where
  "letter_semitone letter =
     (if letter = CHR ''C'' then Some 0
      else if letter = CHR ''D'' then Some 2
      else if letter = CHR ''E'' then Some 4
      else if letter = CHR ''F'' then Some 5
      else if letter = CHR ''G'' then Some 7
      else if letter = CHR ''A'' then Some 9
      else if letter = CHR ''B'' then Some 11
      else None)"

text \<open>
  The two rollover statements that follow \<open>semitone += accidental\<close>, on the pair
  (semitone, octave).
\<close>

definition rollover_down :: "int \<times> 8 word \<Rightarrow> int \<times> 8 word" where
  "rollover_down so =
     (case so of (semitone, octave) \<Rightarrow>
        if semitone < 0 then (semitone + 12, if 1 < octave then octave - 1 else octave)
        else (semitone, octave))"

definition rollover_up :: "int \<times> 8 word \<Rightarrow> int \<times> 8 word" where
  "rollover_up so =
     (case so of (semitone, octave) \<Rightarrow>
        if 12 \<le> semitone then (semitone - 12, if octave < 8 then octave + 1 else octave)
        else (semitone, octave))"

definition clamp_idx :: "int \<Rightarrow> int" where
  "clamp_idx idx = (let idx = (if idx < 0 then 0 else idx) in if 86 < idx then 86 else idx)"

definition note_from_mml :: "char \<Rightarrow> int \<Rightarrow> 8 word \<Rightarrow> BuzzerNote" where
  "note_from_mml letter accidental octave =
     (case letter_semitone letter of
        None \<Rightarrow> BUZZER_NOTE_REST
      | Some semitone \<Rightarrow>
          (case rollover_up (rollover_down (semitone + accidental, octave)) of
             (semitone, octave) \<Rightarrow> BUZZER_NOTE (clamp_idx (NOTE_INDEX (uint octave) semitone))))"

subsection \<open>The pitch resolver as the specification words it\<close>

text \<open>
  The fixed table of base semitones, and the resolver on mathematical integers: the
  octave borrows or carries only inside the range 1 to 8, and the index is clamped.
\<close>

definition spec_base_semitone :: "(char \<times> int) list" where
  "spec_base_semitone =
     [(CHR ''C'', 0), (CHR ''D'', 2), (CHR ''E'', 4), (CHR ''F'', 5),
      (CHR ''G'', 7), (CHR ''A'', 9), (CHR ''B'', 11)]"

definition spec_resolve :: "char \<Rightarrow> int \<Rightarrow> int \<Rightarrow> int option" where
  "spec_resolve letter accidental octave =
     map_option
       (\<lambda>base.
          let s = base + accidental;
              o1 = (if s < 0 \<and> octave > 1 then octave - 1 else octave);
              s1 = (if s < 0 then s + 12 else s);
              o2 = (if s1 \<ge> 12 \<and> o1 < 8 then o1 + 1 else o1);
              s2 = (if s1 \<ge> 12 then s1 - 12 else s1)
          in max 0 (min 86 (o2 * 12 + s2 - 21)))
       (map_of spec_base_semitone letter)"

subsection \<open>Durations\<close>

text \<open>The local constants of \<open>mml_play_blocking\<close>.\<close>

definition tempo_bpm :: "16 word" where
  "tempo_bpm = 120"

definition default_len :: "8 word" where
  "default_len = 4"

text \<open>
  \<open>quarter_ms = 60000UL / tempo_bpm\<close> and \<open>dur_ms = (4UL * quarter_ms) / len\<close>, in
  \<open>unsigned long\<close> arithmetic; \<open>len\<close> is an \<open>int\<close> and is converted bit for bit.
\<close>

definition quarter_ms :: "16 word \<Rightarrow> 32 word" where
  "quarter_ms tempo = 60000 div ucast tempo"

definition dur_ms :: "16 word \<Rightarrow> 32 word \<Rightarrow> 32 word" where
  "dur_ms tempo len = (4 * quarter_ms tempo) div len"

subsection \<open>Scanning one token\<close>

text \<open>
  The values of the locals \<open>c\<close>, \<open>accidental\<close>, \<open>is_rest\<close> and \<open>len\<close> once the
  optional length has been parsed.
\<close>

record token =
  tok_c :: char
  tok_accidental :: int
  tok_is_rest :: bool
  tok_len :: "32 word"

text \<open>\<open>while (*p == ' ' || *p == '\t' || *p == '|') p++;\<close>\<close>

fun skip_seps :: "string \<Rightarrow> string" where
  "skip_seps [] = []"
| "skip_seps (x # xs) =
     (if x = CHR '' '' \<or> x = CHR 0x09 \<or> x = CHR ''|'' then skip_seps xs else x # xs)"

text \<open>
  \<open>while (isdigit(*p)) len = len * 10 + (*p++ - '0');\<close> The accumulator is an \<open>int\<close>;
  a run of digits too long for it overflows, which C leaves undefined and the target
  computes modulo \<open>2 ^ 32\<close>. The test \<open>len <= 0\<close> that follows reads it as signed.
\<close>

fun parse_digits :: "32 word \<Rightarrow> string \<Rightarrow> 32 word \<times> string" where
  "parse_digits len [] = (len, [])"
| "parse_digits len (x # xs) =
     (if isdigit x
      then parse_digits (len * 10 + word_of_int (of_char x - of_char (CHR ''0''))) xs
      else (len, x # xs))"

definition parse_len :: "string \<Rightarrow> 32 word \<times> string" where
  "parse_len p =
     (case parse_digits 0 p of
        (len, p') \<Rightarrow> (if sint len \<le> 0 then ucast default_len else len, p'))"

text \<open>
  What one pass through the loop body does before anything is drawn: it leaves the loop
  at the terminator, skips one character (\<open>continue\<close>), or has a token; the string is the
  cursor afterwards.
\<close>

datatype scan = Break | Continue string | Token token string

definition with_len :: "char \<Rightarrow> int \<Rightarrow> bool \<Rightarrow> string \<Rightarrow> scan" where
  "with_len c accidental is_rest p =
     (case parse_len p of
        (len, p') \<Rightarrow>
          Token \<lparr>tok_c = c, tok_accidental = accidental, tok_is_rest = is_rest, tok_len = len\<rparr> p')"

definition mml_scan :: "string \<Rightarrow> scan" where
  "mml_scan p0 =
     (let p = skip_seps p0 in
      if deref p = NUL then Break
      else
        let c = toupper (deref p); p = tl p in
        if c = CHR ''R'' \<or> c = CHR ''P'' then with_len c 0 True p
        else if CHR ''A'' \<le> c \<and> c \<le> CHR ''G'' then
          (if deref p = CHR ''+'' \<or> deref p = CHR ''#'' then with_len c 1 False (tl p)
           else if deref p = CHR ''-'' then with_len c (- 1) False (tl p)
           else with_len c 0 False p)
        else Continue p)"

subsection \<open>The length as the specification words it\<close>

text \<open>
  The run of digits is read as a decimal numeral, on the natural numbers; where there is
  no digit, or the value is not positive once it is held in an \<open>int\<close>, the length is the
  default length 4.
\<close>

definition digit_value :: "char \<Rightarrow> nat" where
  "digit_value d = of_char d - of_char (CHR ''0'')"

definition decimal_value :: "string \<Rightarrow> nat" where
  "decimal_value ds = foldl (\<lambda>n d. 10 * n + digit_value d) 0 ds"

definition spec_len :: "string \<Rightarrow> 32 word" where
  "spec_len p =
     (let v = word_of_nat (decimal_value (takeWhile isdigit p)) :: 32 word
      in if sint v \<le> 0 then 4 else v)"

subsection \<open>Drawing and sounding one token\<close>

definition mml_emit :: "8 word \<Rightarrow> token \<Rightarrow> hw_call list" where
  "mml_emit octave t =
     (let dur = dur_ms tempo_bpm (tok_len t) in
      [watch_clear_pixel 0 12, watch_clear_pixel 0 15] @
      (if tok_is_rest t then
         display_note_char (CHR '' '') @ [watch_set_buzzer_off, mml_delay_ms (ucast dur)]
       else
         display_note_char (tok_c t) @
         (if 0 < tok_accidental t then [watch_set_pixel 0 12]
          else if tok_accidental t < 0 then [watch_set_pixel 0 15]
          else []) @
         [watch_buzzer_play_note (note_from_mml (tok_c t) (tok_accidental t) octave) (ucast dur),
          watch_clear_pixel 0 12, watch_clear_pixel 0 15]))"

subsection \<open>The cursor moves forward\<close>

text \<open>
  Every pass through the loop body that does not leave the loop consumes at least one
  character; the loop below is defined by recursion on what is left of the score.
\<close>

lemma skip_seps_length: "length (skip_seps p) \<le> length p"
  by (induction p) auto

lemma parse_digits_length: "parse_digits len p = (len', p') \<Longrightarrow> length p' \<le> length p"
proof (induction p arbitrary: len)
  case Nil
  then show ?case by simp
next
  case (Cons x xs)
  show ?case
  proof (cases "isdigit x")
    case True
    with Cons.prems
    have "parse_digits (len * 10 + word_of_int (of_char x - of_char (CHR ''0''))) xs = (len', p')"
      by simp
    from Cons.IH [OF this] show ?thesis by simp
  next
    case False
    with Cons.prems show ?thesis by auto
  qed
qed

lemma parse_len_length: "parse_len p = (len', p') \<Longrightarrow> length p' \<le> length p"
  by (auto simp: parse_len_def split: prod.splits dest: parse_digits_length)

lemma with_len_Token: "with_len c a r p = Token t p' \<Longrightarrow> length p' \<le> length p"
  by (auto simp: with_len_def split: prod.splits dest: parse_len_length)

lemma with_len_not_Continue: "with_len c a r p \<noteq> Continue p'"
  by (simp add: with_len_def split: prod.splits)

lemma with_len_not_Break: "with_len c a r p \<noteq> Break"
  by (simp add: with_len_def split: prod.splits)

lemma deref_not_NUL: "deref p \<noteq> NUL \<Longrightarrow> length (tl p) < length p"
  by (cases p) auto

lemma mml_scan_Token_length:
  assumes "mml_scan p = Token t p'"
  shows "length p' < length p"
proof -
  let ?q = "skip_seps p"
  from assms have nz: "deref ?q \<noteq> NUL"
    by (auto simp: mml_scan_def Let_def split: if_splits)
  have q: "length (tl ?q) < length p"
    using deref_not_NUL [OF nz] skip_seps_length [of p] by simp
  from assms nz obtain c a r
    where "with_len c a r (tl ?q) = Token t p' \<or> with_len c a r (tl (tl ?q)) = Token t p'"
    by (auto simp: mml_scan_def Let_def split: if_splits)
  then have "length p' \<le> length (tl ?q)"
  proof
    assume "with_len c a r (tl ?q) = Token t p'"
    then show ?thesis by (rule with_len_Token)
  next
    assume "with_len c a r (tl (tl ?q)) = Token t p'"
    then have "length p' \<le> length (tl (tl ?q))" by (rule with_len_Token)
    then show ?thesis by simp
  qed
  with q show ?thesis by simp
qed

lemma mml_scan_Continue_length:
  assumes "mml_scan p = Continue p'"
  shows "length p' < length p"
proof -
  let ?q = "skip_seps p"
  from assms have nz: "deref ?q \<noteq> NUL"
    by (auto simp: mml_scan_def Let_def split: if_splits)
  have q: "length (tl ?q) < length p"
    using deref_not_NUL [OF nz] skip_seps_length [of p] by simp
  from assms nz have "p' = tl ?q"
    by (auto simp: mml_scan_def Let_def with_len_not_Continue split: if_splits)
  with q show ?thesis by simp
qed

subsection \<open>Playback\<close>

text \<open>
  The loop \<open>while (*p) { ... }\<close> of \<open>mml_play_blocking\<close>, from the cursor \<open>p\<close>; the
  local \<open>octave\<close> is never assigned in the loop.
\<close>

function mml_loop :: "8 word \<Rightarrow> string \<Rightarrow> hw_call list" where
  "mml_loop octave p =
     (if deref p = NUL then []
      else
        (case mml_scan p of
           Break \<Rightarrow> []
         | Continue p' \<Rightarrow> mml_loop octave p'
         | Token t p' \<Rightarrow> mml_emit octave t @ mml_loop octave p'))"
  by pat_completeness auto
termination
  by (relation "measure (\<lambda>(octave, p). length p)")
    (auto dest: mml_scan_Continue_length mml_scan_Token_length)

declare mml_loop.simps [simp del]

text \<open>The tokens the same loop goes through, in order.\<close>

function mml_tokens :: "string \<Rightarrow> token list" where
  "mml_tokens p =
     (if deref p = NUL then []
      else
        (case mml_scan p of
           Break \<Rightarrow> []
         | Continue p' \<Rightarrow> mml_tokens p'
         | Token t p' \<Rightarrow> t # mml_tokens p'))"
  by pat_completeness auto
termination
  by (relation "measure length")
    (auto dest: mml_scan_Continue_length mml_scan_Token_length)

declare mml_tokens.simps [simp del]

text \<open>\<open>cleanup after tune\<close>\<close>

definition mml_cleanup :: "hw_call list" where
  "mml_cleanup =
     display_note_char (CHR '' '') @
     [watch_clear_pixel 0 12, watch_clear_pixel 0 15, watch_set_buzzer_off]"

text \<open>The score pointer may be \<open>NULL\<close>, which is \<open>None\<close>.\<close>

definition mml_play_blocking :: "string option \<Rightarrow> hw_call list" where
  "mml_play_blocking mml =
     (case mml of
        None \<Rightarrow> []
      | Some score \<Rightarrow> mml_loop 4 score @ mml_cleanup)"

text \<open>The calls that sound a tone, with note and duration.\<close>

fun tone_calls :: "hw_call list \<Rightarrow> (BuzzerNote \<times> 16 word) list" where
  "tone_calls [] = []"
| "tone_calls (watch_buzzer_play_note note ms # cs) = (note, ms) # tone_calls cs"
| "tone_calls (_ # cs) = tone_calls cs"

subsection \<open>The face\<close>

definition demo_mml :: string where
  "demo_mml = ''c8 d-8 d8 e8 e-8 f8 f+8 g8 g+8 a8 b8 c2 r4 f+2 c8 c8 g4 r8''"

record mml_player_state_t =
  is_playing :: bool

text \<open>
  The event types the loop handler names; every other value of the enumeration of
  \<^verbatim>\<open>movement.h\<close> takes the \<open>default\<close> branch.
\<close>

datatype movement_event_type_t =
    EVENT_ACTIVATE
  | EVENT_LIGHT_BUTTON_UP
  | EVENT_MODE_BUTTON_UP
  | EVENT_OTHER

definition mml_player_face_activate ::
  "mml_player_state_t \<Rightarrow> mml_player_state_t \<times> hw_call list" where
  "mml_player_face_activate state =
     (state\<lparr>is_playing := False\<rparr>,
      [watch_display_string ''mu '' 0, watch_display_string ''sic'' 7])"

text \<open>
  The branch \<open>case EVENT_LIGHT_BUTTON_UP\<close> of the loop handler, for a score \<open>mml\<close>; the
  handler runs it on \<open>demo_mml\<close>.
\<close>

definition light_button_up ::
  "string option \<Rightarrow> mml_player_state_t \<Rightarrow> mml_player_state_t \<times> hw_call list" where
  "light_button_up mml state =
     (if \<not> is_playing state then
        (let state1 = state\<lparr>is_playing := True\<rparr>;
             calls = [watch_clear_display, watch_display_string ''play'' 5] @
                     mml_play_blocking mml @
                     [watch_display_string ''done'' 5]
         in (state1\<lparr>is_playing := False\<rparr>, calls))
      else (state, []))"

text \<open>
  The loop handler returns its result, the state and the calls it made.
  \<open>movement_default_loop_handler\<close> belongs to the framework; \<open>dflt\<close> is what it returns.
\<close>

definition mml_player_face_loop ::
  "bool \<Rightarrow> movement_event_type_t \<Rightarrow> mml_player_state_t \<Rightarrow>
     bool \<times> mml_player_state_t \<times> hw_call list" where
  "mml_player_face_loop dflt event_type state =
     (case event_type of
        EVENT_ACTIVATE \<Rightarrow> (True, state, [])
      | EVENT_LIGHT_BUTTON_UP \<Rightarrow> (True, light_button_up (Some demo_mml) state)
      | EVENT_MODE_BUTTON_UP \<Rightarrow> (dflt, state, [movement_default_loop_handler])
      | EVENT_OTHER \<Rightarrow> (True, state, []))"

definition mml_player_face_resign :: "mml_player_state_t \<Rightarrow> hw_call list" where
  "mml_player_face_resign state = (if is_playing state then [watch_set_buzzer_off] else [])"

section \<open>The pitch resolver\<close>

lemma letter_semitone_table:
  "letter \<in> set ''ABCDEFG'' \<Longrightarrow> letter_semitone letter = map_of spec_base_semitone letter"
  by (auto simp: letter_semitone_def spec_base_semitone_def)

lemma letter_semitone_range:
  "letter \<in> set ''ABCDEFG'' \<Longrightarrow> \<exists>b. letter_semitone letter = Some b \<and> 0 \<le> b \<and> b \<le> 11"
  by (auto simp: letter_semitone_def)

lemma uint_octave_dec: "1 < (w :: 8 word) \<Longrightarrow> uint (w - 1) = uint w - 1"
  by uint_arith

lemma uint_octave_inc: "(w :: 8 word) < 8 \<Longrightarrow> uint (w + 1) = uint w + 1"
  by (simp add: word_less_def uint_word_ariths)

lemma octave_gt_1: "(1 < (w :: 8 word)) = (1 < uint w)"
  by (simp add: word_less_def)

lemma octave_lt_8: "((w :: 8 word) < 8) = (uint w < 8)"
  by (simp add: word_less_def)

lemma clamp_idx_max_min: "clamp_idx x = max 0 (min 86 x)"
  by (simp add: clamp_idx_def Let_def)

text \<open>
  C1: for every note letter A to G, every accidental among -1, 0 and +1 and every starting
  octave (any \<open>uint8_t\<close>), \<open>note_from_mml\<close> returns the note whose index the
  specification's resolver computes: the table's base semitone plus the accidental, 12
  added and the octave decremented only above 1 when the sum is negative, 12 subtracted and
  the octave incremented only below 8 when it reaches 12, and
  \<open>octave * 12 + semitone - 21\<close> clamped to 0..86.
\<close>

theorem note_from_mml_resolves:
  assumes "letter \<in> set ''ABCDEFG''" and "accidental \<in> {- 1, 0, 1}"
  shows "map_option BUZZER_NOTE (spec_resolve letter accidental (uint octave)) =
         Some (note_from_mml letter accidental octave)"
proof -
  obtain b where b: "letter_semitone letter = Some b" "map_of spec_base_semitone letter = Some b"
    using letter_semitone_range [OF assms(1)] letter_semitone_table [OF assms(1)] by auto
  show ?thesis
    unfolding note_from_mml_def spec_resolve_def b
    by (simp add: rollover_up_def rollover_down_def NOTE_INDEX_def Let_def clamp_idx_max_min
        uint_octave_dec uint_octave_inc octave_gt_1 octave_lt_8)
qed

theorem note_from_mml_resolves_witness:
  "CHR ''B'' \<in> set ''ABCDEFG'' \<and> (1::int) \<in> {- 1, 0, 1} \<and>
   spec_resolve (CHR ''B'') 1 (uint (4 :: 8 word)) = Some 39 \<and>
   note_from_mml (CHR ''B'') 1 4 = BUZZER_NOTE 39"
proof -
  have l: "CHR ''B'' \<in> set ''ABCDEFG''" by simp
  have a: "(1::int) \<in> {- 1, 0, 1}" by simp
  have s: "spec_resolve (CHR ''B'') 1 (uint (4 :: 8 word)) = Some 39"
    by (simp add: spec_resolve_def spec_base_semitone_def)
  from note_from_mml_resolves [OF l a, of 4] s l a show ?thesis by simp
qed

text \<open>
  C2: for every note letter A to G, every accidental among -1, 0 and +1 and every octave
  from 1 to 8, \<open>note_from_mml\<close> returns a note of the table, with an index from 0 to 86,
  and never the rest; the octave after both rollover steps is still between 1 and 8 and the
  semitone between 0 and 11. For C flat in octave 1 the borrow leaves the octave at 1
  (semitone 11), and the note returned has index 2.
\<close>

theorem note_from_mml_in_table:
  assumes "letter \<in> set ''ABCDEFG''" and "accidental \<in> {- 1, 0, 1}"
    and "1 \<le> octave" and "octave \<le> 8"
  shows "(\<exists>idx. note_from_mml letter accidental octave = BUZZER_NOTE idx \<and> 0 \<le> idx \<and> idx \<le> 86) \<and>
         (\<exists>b semitone octave'. letter_semitone letter = Some b \<and>
            rollover_up (rollover_down (b + accidental, octave)) = (semitone, octave') \<and>
            1 \<le> octave' \<and> octave' \<le> 8 \<and> 0 \<le> semitone \<and> semitone \<le> 11) \<and>
         letter_semitone (CHR ''C'') = Some 0 \<and>
         rollover_up (rollover_down (0 + (- 1), 1)) = (11, 1) \<and>
         note_from_mml (CHR ''C'') (- 1) 1 = BUZZER_NOTE 2"
proof -
  obtain b where b: "letter_semitone letter = Some b" "0 \<le> b" "b \<le> 11"
    using letter_semitone_range [OF assms(1)] by auto
  have o: "1 \<le> uint octave" "uint octave \<le> 8"
    using assms(3,4) by (simp_all add: word_le_def)
  have 1: "\<exists>idx. note_from_mml letter accidental octave = BUZZER_NOTE idx \<and> 0 \<le> idx \<and> idx \<le> 86"
    by (simp add: note_from_mml_def b clamp_idx_max_min split: prod.splits)
  have 2: "\<exists>semitone octave'.
            rollover_up (rollover_down (b + accidental, octave)) = (semitone, octave') \<and>
            1 \<le> octave' \<and> octave' \<le> 8 \<and> 0 \<le> semitone \<and> semitone \<le> 11"
    using assms(2) b(2,3) o
    by (auto simp: rollover_up_def rollover_down_def word_le_def word_less_def
        uint_octave_dec uint_octave_inc octave_gt_1 octave_lt_8)
  have 3: "letter_semitone (CHR ''C'') = Some 0"
    by (simp add: letter_semitone_def)
  have 4: "rollover_up (rollover_down (0 + (- 1), 1)) = (11, 1)"
    by (simp add: rollover_down_def rollover_up_def)
  have 5: "note_from_mml (CHR ''C'') (- 1) 1 = BUZZER_NOTE 2"
    by (simp add: note_from_mml_def letter_semitone_def rollover_down_def rollover_up_def
        clamp_idx_def NOTE_INDEX_def)
  from 1 2 3 4 5 b(1) show ?thesis by blast
qed

theorem note_from_mml_in_table_witness:
  "CHR ''B'' \<in> set ''ABCDEFG'' \<and> (1::int) \<in> {- 1, 0, 1} \<and> (1 :: 8 word) \<le> 8 \<and> (8 :: 8 word) \<le> 8 \<and>
   note_from_mml (CHR ''B'') 1 8 = BUZZER_NOTE 75 \<and>
   rollover_up (rollover_down (11 + 1, 8)) = (0, 8)"
proof -
  have l: "CHR ''B'' \<in> set ''ABCDEFG''" by simp
  have a: "(1::int) \<in> {- 1, 0, 1}" by simp
  have lo: "(1 :: 8 word) \<le> 8" by simp
  have hi: "(8 :: 8 word) \<le> 8" by simp
  have b: "letter_semitone (CHR ''B'') = Some 11" by (simp add: letter_semitone_def)
  from note_from_mml_in_table [OF l a lo hi]
  obtain idx semitone octave'
    where i: "note_from_mml (CHR ''B'') 1 8 = BUZZER_NOTE idx" "0 \<le> idx" "idx \<le> 86"
      and r: "rollover_up (rollover_down (11 + 1, 8)) = (semitone, octave')"
        "1 \<le> octave'" "octave' \<le> 8" "0 \<le> semitone" "semitone \<le> 11"
    using b by auto
  have "note_from_mml (CHR ''B'') 1 8 = BUZZER_NOTE 75"
    by (simp add: note_from_mml_def b rollover_down_def rollover_up_def clamp_idx_def
        NOTE_INDEX_def)
  moreover have "rollover_up (rollover_down (11 + 1, 8)) = (0, 8)"
    by (simp add: rollover_down_def rollover_up_def)
  ultimately show ?thesis using l a lo hi by simp
qed

section \<open>Durations\<close>

lemma sint_pos_uint:
  assumes "1 \<le> sint (len :: 32 word)"
  shows "uint len = sint len"
proof -
  have "sint len < 2 ^ (LENGTH(32) - 1)" by (rule sint_lt)
  then have "sint len < 2 ^ 32" by simp
  with assms have "take_bit 32 (sint len) = sint len"
    by (simp add: take_bit_int_eq_self)
  then show ?thesis by (simp add: uint_sint)
qed

lemma uint_quarter_ms: "uint (quarter_ms tempo) = 60000 div uint tempo"
  by (simp add: quarter_ms_def uint_div uint_up_ucast is_up)

lemma quarter_ms_bound: "uint (quarter_ms tempo) \<le> 60000"
proof (cases "uint tempo = 0")
  case True
  then show ?thesis by (simp add: uint_quarter_ms)
next
  case False
  then have "0 < uint tempo" by (simp add: order_less_le)
  then have "60000 div uint tempo \<le> 60000 div 1"
    by (intro zdiv_mono2) simp_all
  then show ?thesis by (simp add: uint_quarter_ms)
qed

lemma uint_four_quarters: "uint (4 * quarter_ms tempo) = 4 * uint (quarter_ms tempo)"
proof -
  have "uint (4 :: 32 word) * uint (quarter_ms tempo) < 2 ^ LENGTH(32)"
    using quarter_ms_bound [of tempo] by simp
  then have "uint (4 * quarter_ms tempo) = uint (4 :: 32 word) * uint (quarter_ms tempo)"
    by (simp only: uint_mult_lem)
  then show ?thesis by simp
qed

text \<open>
  C3: for every tempo above 0 and every length of at least 1, the duration computed in
  \<open>dur_ms\<close> is \<open>(4 * (60000 / tempo_bpm)) / length\<close> in truncating integer division:
  the quarter note is multiplied by 4 first, and the product divided by the length.
\<close>

theorem dur_ms_formula:
  assumes "0 < tempo" and "1 \<le> sint len"
  shows "uint (dur_ms tempo len) = (4 * (60000 div uint tempo)) div sint len"
  using assms(1)
  by (simp add: dur_ms_def uint_div uint_four_quarters uint_quarter_ms
      sint_pos_uint [OF assms(2)])

theorem dur_ms_formula_witness:
  "(0 :: 16 word) < 120 \<and> 1 \<le> sint (3 :: 32 word) \<and> uint (dur_ms 120 3) = 666"
proof -
  have t: "(0 :: 16 word) < 120" by simp
  have l: "1 \<le> sint (3 :: 32 word)" by simp
  from dur_ms_formula [OF t l] t l show ?thesis by simp
qed

text \<open>
  At the tempo of the face no duration exceeds 2000 ms, so the cast to \<open>uint16_t\<close> at
  the two calls that take it loses nothing.
\<close>

lemma played_duration:
  assumes "1 \<le> sint len"
  shows "uint (ucast (dur_ms tempo_bpm len) :: 16 word) = 2000 div sint len"
proof -
  have t: "0 < tempo_bpm" by (simp add: tempo_bpm_def)
  have "uint (dur_ms tempo_bpm len) = (4 * (60000 div uint tempo_bpm)) div sint len"
    using t assms
    by (simp add: dur_ms_def uint_div uint_four_quarters uint_quarter_ms sint_pos_uint)
  then have d: "uint (dur_ms tempo_bpm len) = 2000 div sint len"
    by (simp add: tempo_bpm_def)
  have "2000 div sint len \<le> 2000 div 1"
    using assms by (intro zdiv_mono2) simp_all
  then have "uint (dur_ms tempo_bpm len) < 2 ^ 16" using d by simp
  then have "take_bit 16 (uint (dur_ms tempo_bpm len)) = uint (dur_ms tempo_bpm len)"
    by (intro take_bit_int_eq_self) simp_all
  then show ?thesis
    using d by (simp add: unsigned_ucast_eq)
qed

text \<open>The length that reaches the division is positive, whatever the score holds.\<close>

lemma parse_len_positive: "1 \<le> sint (fst (parse_len p))"
  by (simp add: parse_len_def default_len_def split: prod.splits)

section \<open>Tokens\<close>

text \<open>The calls of the loop are the calls of its tokens, one token after the other.\<close>

lemma mml_loop_tokens: "mml_loop octave p = concat (map (mml_emit octave) (mml_tokens p))"
proof (induction octave p rule: mml_loop.induct)
  case (1 octave p)
  show ?case
  proof (cases "deref p = NUL")
    case True
    then show ?thesis by (simp add: mml_loop.simps mml_tokens.simps)
  next
    case False
    show ?thesis
    proof (cases "mml_scan p")
      case Break
      with False show ?thesis
        by (simp add: mml_loop.simps [of octave p] mml_tokens.simps [of p])
    next
      case (Continue p')
      with False 1 show ?thesis
        by (simp add: mml_loop.simps [of octave p] mml_tokens.simps [of p])
    next
      case (Token t p')
      with False 1 show ?thesis
        by (simp add: mml_loop.simps [of octave p] mml_tokens.simps [of p])
    qed
  qed
qed

text \<open>
  C5: the score \<open>c8 d-8 r4\<close> has exactly three tokens, in this order: the note C with no
  accidental and length 8, the note D flat with length 8, and a rest of length 4.
\<close>

theorem tokens_c8_dflat8_r4:
  "mml_tokens ''c8 d-8 r4'' =
     [\<lparr>tok_c = CHR ''C'', tok_accidental = 0, tok_is_rest = False, tok_len = 8\<rparr>,
      \<lparr>tok_c = CHR ''D'', tok_accidental = - 1, tok_is_rest = False, tok_len = 8\<rparr>,
      \<lparr>tok_c = CHR ''R'', tok_accidental = 0, tok_is_rest = True, tok_len = 4\<rparr>]"
  by code_simp

subsection \<open>Letters\<close>



lemma char_eq_code: "(c = d) = ((of_char c :: nat) = of_char d)"
  by simp

lemma of_char_toupper:
  "(of_char (toupper ch) :: nat) =
     (if 97 \<le> (of_char ch :: nat) \<and> (of_char ch :: nat) \<le> 122 then of_char ch - 32 else of_char ch)"
  by (auto simp: toupper_def less_eq_char_def)

lemma toupper_eq_iff:
  assumes "(of_char u :: nat) = k" and "65 \<le> k" and "k \<le> 90"
  shows "toupper ch = u \<longleftrightarrow> of_char ch = k \<or> of_char ch = k + 32"
  unfolding char_eq_code [of "toupper ch"] of_char_toupper assms(1)
  using assms(2,3) by auto

lemma toupper_R: "toupper ch = CHR ''R'' \<longleftrightarrow> ch = CHR ''R'' \<or> ch = CHR ''r''"
  by (simp add: toupper_eq_iff [where k = 82] char_eq_code [of ch])

lemma toupper_P: "toupper ch = CHR ''P'' \<longleftrightarrow> ch = CHR ''P'' \<or> ch = CHR ''p''"
  by (simp add: toupper_eq_iff [where k = 80] char_eq_code [of ch])

lemma toupper_note:
  "CHR ''A'' \<le> toupper ch \<and> toupper ch \<le> CHR ''G'' \<longleftrightarrow>
   CHR ''A'' \<le> ch \<and> ch \<le> CHR ''G'' \<or> CHR ''a'' \<le> ch \<and> ch \<le> CHR ''g''"
  unfolding less_eq_char_def of_char_toupper by auto

lemma note_range:
  "CHR ''A'' \<le> ch \<and> ch \<le> CHR ''G'' \<longleftrightarrow> ch \<in> set ''ABCDEFG''"
  unfolding less_eq_char_def by (auto simp: char_eq_code [of ch])

lemma note_range_lower:
  "CHR ''a'' \<le> ch \<and> ch \<le> CHR ''g'' \<longleftrightarrow> ch \<in> set ''abcdefg''"
  unfolding less_eq_char_def by (auto simp: char_eq_code [of ch])


lemma toupper_unrecognized:
  assumes "ch \<notin> set ''ABCDEFGRPabcdefgrp''"
  shows "toupper ch \<noteq> CHR ''R'' \<and> toupper ch \<noteq> CHR ''P'' \<and>
         \<not> (CHR ''A'' \<le> toupper ch \<and> toupper ch \<le> CHR ''G'')"
proof -
  have "toupper ch \<noteq> CHR ''R''" "toupper ch \<noteq> CHR ''P''"
    using assms unfolding toupper_R toupper_P by simp_all
  moreover have "\<not> (CHR ''A'' \<le> ch \<and> ch \<le> CHR ''G'')" "\<not> (CHR ''a'' \<le> ch \<and> ch \<le> CHR ''g'')"
    using assms unfolding note_range note_range_lower by simp_all
  then have "\<not> (CHR ''A'' \<le> toupper ch \<and> toupper ch \<le> CHR ''G'')"
    unfolding toupper_note by simp
  ultimately show ?thesis by simp
qed

lemma toupper_rest:
  assumes "ch \<in> set ''RrPp''"
  shows "toupper ch = CHR ''R'' \<or> toupper ch = CHR ''P''"
  using assms unfolding toupper_R toupper_P by auto

lemma parse_digits_dropWhile: "snd (parse_digits len p) = dropWhile isdigit p"
  by (induction p arbitrary: len) auto

lemma parse_len_dropWhile: "snd (parse_len p) = dropWhile isdigit p"
  using parse_digits_dropWhile [of 0 p] by (auto simp: parse_len_def split: prod.splits)

lemma parse_len_no_digit: "\<not> isdigit (deref p) \<Longrightarrow> parse_len p = (4, p)"
  by (cases p) (simp_all add: parse_len_def default_len_def)

subsection \<open>The length of a token\<close>

lemma digit_word:
  assumes "isdigit x"
  shows "(word_of_int (of_char x - of_char (CHR ''0'')) :: 32 word) = word_of_nat (digit_value x)"
proof -
  from assms have "(48 :: nat) \<le> of_char x"
    by (simp add: isdigit_def less_eq_char_def)
  then have "int (of_char x - 48) = int (of_char x) - 48" by simp
  moreover have "(of_char x :: int) = int (of_char x)" by (simp add: of_nat_of_char)
  ultimately have "(of_char x :: int) - 48 = int (digit_value x)"
    by (simp add: digit_value_def)
  then show ?thesis by simp
qed

lemma parse_digits_value:
  "fst (parse_digits (word_of_nat k) p) =
     word_of_nat (foldl (\<lambda>n d. 10 * n + digit_value d) k (takeWhile isdigit p))"
proof (induction p arbitrary: k)
  case Nil
  then show ?case by simp
next
  case (Cons x xs)
  show ?case
  proof (cases "isdigit x")
    case True
    have "(word_of_nat k :: 32 word) * 10 + word_of_nat (digit_value x) =
          word_of_nat (10 * k + digit_value x)"
      by simp
    then have "(word_of_nat k :: 32 word) * 10 + word_of_int (of_char x - of_char (CHR ''0'')) =
          word_of_nat (10 * k + digit_value x)"
      by (simp only: digit_word [OF True])
    then have "parse_digits (word_of_nat k) (x # xs) =
          parse_digits (word_of_nat (10 * k + digit_value x)) xs"
      using True by (simp only: parse_digits.simps if_True)
    with True Cons.IH [of "10 * k + digit_value x"] show ?thesis
      by (simp only: takeWhile.simps if_True foldl_Cons)
  next
    case False
    then show ?thesis by simp
  qed
qed

lemma parse_len_spec: "parse_len p = (spec_len p, dropWhile isdigit p)"
proof -
  obtain len p' where pd: "parse_digits 0 p = (len, p')"
    by (cases "parse_digits 0 p")
  have "fst (parse_digits 0 p) = word_of_nat (decimal_value (takeWhile isdigit p))"
    using parse_digits_value [of 0 p] by (simp add: decimal_value_def)
  with pd have len: "len = word_of_nat (decimal_value (takeWhile isdigit p))" by simp
  have "snd (parse_digits 0 p) = dropWhile isdigit p"
    by (rule parse_digits_dropWhile)
  with pd have p': "p' = dropWhile isdigit p" by simp
  show ?thesis
    unfolding parse_len_def pd spec_len_def
    by (simp add: len p' default_len_def Let_def)
qed

lemma spec_len_in_range:
  assumes "0 < v" and "v < 2 ^ 31" and "v = decimal_value (takeWhile isdigit p)"
  shows "unat (spec_len p) = v"
proof -
  let ?w = "word_of_nat v :: 32 word"
  have "v < 2 ^ 32" using assms(2) by simp
  then have u: "unat ?w = v"
    by (simp add: unsigned_of_nat take_bit_nat_eq_self)
  then have ui: "uint ?w = int v" by (metis uint_nat)
  have "sint ?w = uint ?w"
  proof -
    have "uint ?w < 2 ^ 31" using ui assms(2) by simp
    moreover have "- (2 ^ 31) \<le> uint ?w"
    proof -
      have "0 \<le> uint ?w" by simp
      moreover have "- (2 ^ 31) \<le> (0 :: int)" by simp
      ultimately show ?thesis by (rule order_trans [rotated])
    qed
    ultimately have "signed_take_bit 31 (uint ?w) = uint ?w"
      by (rule signed_take_bit_int_eq_self [rotated])
    then show ?thesis by (simp add: sint_uint)
  qed
  with ui have "0 < sint ?w" using assms(1) by simp
  then show ?thesis using u assms(3) by (simp add: spec_len_def Let_def)
qed

lemma spec_len_zero:
  "decimal_value (takeWhile isdigit p) = 0 \<Longrightarrow> spec_len p = 4"
  by (simp add: spec_len_def)

lemma toupper_note_letter:
  assumes "n \<in> set ''ABCDEFGabcdefg''"
  shows "CHR ''A'' \<le> toupper n \<and> toupper n \<le> CHR ''G'' \<and>
         toupper n \<noteq> CHR ''R'' \<and> toupper n \<noteq> CHR ''P''"
proof -
  from assms have "n \<in> set ''ABCDEFG'' \<or> n \<in> set ''abcdefg''" by auto
  then have "CHR ''A'' \<le> n \<and> n \<le> CHR ''G'' \<or> CHR ''a'' \<le> n \<and> n \<le> CHR ''g''"
    unfolding note_range note_range_lower .
  then have "CHR ''A'' \<le> toupper n \<and> toupper n \<le> CHR ''G''"
    unfolding toupper_note .
  moreover have "toupper n \<noteq> CHR ''R''" "toupper n \<noteq> CHR ''P''"
    using assms unfolding toupper_R toupper_P by auto
  ultimately show ?thesis by simp
qed


lemma spec_len_one_digit:
  assumes "isdigit d" and "d \<noteq> CHR ''0''" and "\<not> isdigit (deref q)"
  shows "spec_len (d # q) = word_of_nat (digit_value d) \<and> dropWhile isdigit (d # q) = q \<and>
         0 < digit_value d \<and> digit_value d \<le> 9"
proof -
  have q: "takeWhile isdigit q = []" "dropWhile isdigit q = q"
    using assms(3) by (cases q, simp_all)+
  have "(48 :: nat) \<le> of_char d" "(of_char d :: nat) \<le> 57"
    using assms(1) by (simp_all add: isdigit_def less_eq_char_def)
  moreover have "(of_char d :: nat) \<noteq> 48"
    using assms(2) by (simp add: char_eq_code [of d])
  ultimately have v: "0 < digit_value d" "digit_value d \<le> 9"
    by (simp_all add: digit_value_def)
  have dv: "decimal_value (takeWhile isdigit (d # q)) = digit_value d"
    using assms(1) q by (simp add: decimal_value_def)
  have "digit_value d < 2 ^ 31" using v(2) by simp
  from spec_len_in_range [OF v(1) this dv [symmetric]]
  have "unat (spec_len (d # q)) = digit_value d" .
  then have "word_of_nat (unat (spec_len (d # q))) = (word_of_nat (digit_value d) :: 32 word)"
    by (simp only:)
  then have "spec_len (d # q) = word_of_nat (digit_value d)"
    by simp
  with q assms(1) v show ?thesis by simp
qed

text \<open>
  C6, as amended: at a letter R or P in either case the scan yields a rest token and parses
  no accidental for it: the token's accidental is 0, and a \<open>+\<close>, \<open>#\<close> or \<open>-\<close> that
  follows the letter is not part of the rest, which then has the default length 4 while
  the cursor stays on that character. The run of decimal digits that follows the letter is
  parsed as the length of the rest and is all that the scan consumes after the letter: the
  length is the decimal value of the run (the value itself when it is positive and below
  \<open>2 ^ 31\<close>, for a single digit from 1 to 9 that digit, and 4 when the value is 0 or
  there is no digit). A note letter followed by the same text, directly or after its
  accidental, gets the same length and leaves the cursor at the same place.
\<close>

theorem rest_takes_no_accidental:
  assumes "ch \<in> set ''RrPp''"
  shows "mml_scan (ch # p) =
           Token \<lparr>tok_c = toupper ch, tok_accidental = 0, tok_is_rest = True,
                  tok_len = spec_len p\<rparr> (dropWhile isdigit p) \<and>
         (toupper ch = CHR ''R'' \<or> toupper ch = CHR ''P'') \<and>
         (0 < decimal_value (takeWhile isdigit p) \<and>
          decimal_value (takeWhile isdigit p) < 2 ^ 31 \<longrightarrow>
            unat (spec_len p) = decimal_value (takeWhile isdigit p)) \<and>
         (decimal_value (takeWhile isdigit p) = 0 \<longrightarrow> spec_len p = 4) \<and>
         (isdigit d \<and> d \<noteq> CHR ''0'' \<and> \<not> isdigit (deref q) \<longrightarrow>
            mml_scan (ch # d # q) =
              Token \<lparr>tok_c = toupper ch, tok_accidental = 0, tok_is_rest = True,
                     tok_len = word_of_nat (of_char d - 48)\<rparr> q) \<and>
         (m \<in> set ''+#-'' \<longrightarrow>
            mml_scan (ch # m # p) =
              Token \<lparr>tok_c = toupper ch, tok_accidental = 0, tok_is_rest = True, tok_len = 4\<rparr>
                (m # p)) \<and>
         (n \<in> set ''ABCDEFGabcdefg'' \<and> deref p \<notin> set ''+#-'' \<longrightarrow>
            mml_scan (n # p) =
              Token \<lparr>tok_c = toupper n, tok_accidental = 0, tok_is_rest = False,
                     tok_len = spec_len p\<rparr> (dropWhile isdigit p)) \<and>
         (n \<in> set ''ABCDEFGabcdefg'' \<and> m \<in> set ''+#-'' \<longrightarrow>
            mml_scan (n # m # p) =
              Token \<lparr>tok_c = toupper n, tok_accidental = (if m = CHR ''-'' then - 1 else 1),
                     tok_is_rest = False, tok_len = spec_len p\<rparr> (dropWhile isdigit p))"
proof -
  have sep: "ch \<noteq> CHR '' ''" "ch \<noteq> CHR 0x09" "ch \<noteq> CHR ''|''" "ch \<noteq> NUL"
    using assms by (auto simp: NUL_def)
  have up: "toupper ch = CHR ''R'' \<or> toupper ch = CHR ''P''"
    using assms by (rule toupper_rest)
  have scan: "mml_scan (ch # r) =
      Token \<lparr>tok_c = toupper ch, tok_accidental = 0, tok_is_rest = True,
             tok_len = spec_len r\<rparr> (dropWhile isdigit r)" for r
    using sep up by (simp add: mml_scan_def with_len_def parse_len_spec)
  have range: "0 < decimal_value (takeWhile isdigit p) \<and>
          decimal_value (takeWhile isdigit p) < 2 ^ 31 \<longrightarrow>
            unat (spec_len p) = decimal_value (takeWhile isdigit p)"
    using spec_len_in_range [of "decimal_value (takeWhile isdigit p)" p] by simp
  have zero: "decimal_value (takeWhile isdigit p) = 0 \<longrightarrow> spec_len p = 4"
    using spec_len_zero by blast
  have digit: "mml_scan (ch # d # q) =
              Token \<lparr>tok_c = toupper ch, tok_accidental = 0, tok_is_rest = True,
                     tok_len = word_of_nat (of_char d - 48)\<rparr> q"
    if "isdigit d \<and> d \<noteq> CHR ''0'' \<and> \<not> isdigit (deref q)"
  proof -
    from that spec_len_one_digit [of d q]
    have "spec_len (d # q) = word_of_nat (digit_value d)" "dropWhile isdigit (d # q) = q"
      by simp_all
    then show ?thesis
      unfolding scan [of "d # q"] by (simp add: digit_value_def)
  qed
  have acc: "mml_scan (ch # m # p) =
              Token \<lparr>tok_c = toupper ch, tok_accidental = 0, tok_is_rest = True, tok_len = 4\<rparr>
                (m # p)" if "m \<in> set ''+#-''"
  proof -
    from that have "\<not> isdigit m"
      by (auto simp: isdigit_def)
    then have "spec_len (m # p) = 4" "dropWhile isdigit (m # p) = m # p"
      by (simp_all add: spec_len_def decimal_value_def)
    then show ?thesis unfolding scan [of "m # p"] by simp
  qed
  have note_sep: "n \<noteq> CHR '' ''" "n \<noteq> CHR 0x09" "n \<noteq> CHR ''|''" "n \<noteq> NUL"
    if "n \<in> set ''ABCDEFGabcdefg''"
    using that by (auto simp: NUL_def)
  have plain: "mml_scan (n # p) =
              Token \<lparr>tok_c = toupper n, tok_accidental = 0, tok_is_rest = False,
                     tok_len = spec_len p\<rparr> (dropWhile isdigit p)"
    if "n \<in> set ''ABCDEFGabcdefg'' \<and> deref p \<notin> set ''+#-''"
  proof -
    from that have n: "n \<in> set ''ABCDEFGabcdefg''" and p: "deref p \<noteq> CHR ''+''"
      "deref p \<noteq> CHR ''#''" "deref p \<noteq> CHR ''-''"
      by simp_all
    show ?thesis
      using note_sep [OF n] toupper_note_letter [OF n] p
      by (simp add: mml_scan_def with_len_def parse_len_spec)
  qed
  have altered: "mml_scan (n # m # p) =
              Token \<lparr>tok_c = toupper n, tok_accidental = (if m = CHR ''-'' then - 1 else 1),
                     tok_is_rest = False, tok_len = spec_len p\<rparr> (dropWhile isdigit p)"
    if "n \<in> set ''ABCDEFGabcdefg'' \<and> m \<in> set ''+#-''"
  proof -
    from that have n: "n \<in> set ''ABCDEFGabcdefg''" and m: "m \<in> set ''+#-''"
      by simp_all
    show ?thesis
      using note_sep [OF n] toupper_note_letter [OF n] m
      by (auto simp: mml_scan_def with_len_def parse_len_spec)
  qed
  from scan [of p] up range zero digit acc plain altered show ?thesis by blast
qed

theorem rest_takes_no_accidental_witness:
  "CHR ''r'' \<in> set ''RrPp'' \<and>
   mml_scan ''r16 c'' =
     Token \<lparr>tok_c = CHR ''R'', tok_accidental = 0, tok_is_rest = True, tok_len = 16\<rparr> '' c'' \<and>
   0 < decimal_value (takeWhile isdigit ''16 c'') \<and>
   decimal_value (takeWhile isdigit ''16 c'') < 2 ^ 31 \<and>
   unat (spec_len ''16 c'') = 16 \<and>
   isdigit (CHR ''8'') \<and> CHR ''8'' \<noteq> CHR ''0'' \<and> \<not> isdigit (deref '' c'') \<and>
   mml_scan ''r8 c'' =
     Token \<lparr>tok_c = CHR ''R'', tok_accidental = 0, tok_is_rest = True, tok_len = 8\<rparr> '' c'' \<and>
   CHR ''+'' \<in> set ''+#-'' \<and>
   mml_scan ''r+16 c'' =
     Token \<lparr>tok_c = CHR ''R'', tok_accidental = 0, tok_is_rest = True, tok_len = 4\<rparr> ''+16 c'' \<and>
   CHR ''c'' \<in> set ''ABCDEFGabcdefg'' \<and> deref ''16 c'' \<notin> set ''+#-'' \<and>
   mml_scan ''c16 c'' =
     Token \<lparr>tok_c = CHR ''C'', tok_accidental = 0, tok_is_rest = False, tok_len = 16\<rparr> '' c'' \<and>
   mml_scan ''c+16 c'' =
     Token \<lparr>tok_c = CHR ''C'', tok_accidental = 1, tok_is_rest = False, tok_len = 16\<rparr> '' c'' \<and>
   decimal_value (takeWhile isdigit []) = 0 \<and>
   mml_scan ''r'' =
     Token \<lparr>tok_c = CHR ''R'', tok_accidental = 0, tok_is_rest = True, tok_len = 4\<rparr> []"
proof -
  have r: "CHR ''r'' \<in> set ''RrPp''" by simp
  have n: "CHR ''c'' \<in> set ''ABCDEFGabcdefg''" by simp
  have m: "CHR ''+'' \<in> set ''+#-''" by simp
  have p: "deref ''16 c'' \<notin> set ''+#-''" by simp
  have d: "isdigit (CHR ''8'')" "CHR ''8'' \<noteq> CHR ''0''" "\<not> isdigit (deref '' c'')"
    by (simp_all add: isdigit_def)
  have v: "decimal_value (takeWhile isdigit ''16 c'') = 16" by code_simp
  have z: "decimal_value (takeWhile isdigit []) = 0" by code_simp
  have l: "spec_len ''16 c'' = 16" by code_simp
  have c: "dropWhile isdigit ''16 c'' = '' c''" by code_simp
  have u: "toupper (CHR ''r'') = CHR ''R''" "toupper (CHR ''c'') = CHR ''C''" by code_simp+
  have e: "(word_of_nat (of_char (CHR ''8'') - 48) :: 32 word) = 8" by simp
  note T1 = rest_takes_no_accidental
    [OF r, where p = "''16 c''" and d = "CHR ''8''" and q = "'' c''" and m = "CHR ''+''"
      and n = "CHR ''c''"]
  note T2 = rest_takes_no_accidental
    [OF r, where p = "[]" and d = "CHR ''8''" and q = "'' c''" and m = "CHR ''+''"
      and n = "CHR ''c''"]
  have 1: "mml_scan ''r16 c'' =
     Token \<lparr>tok_c = CHR ''R'', tok_accidental = 0, tok_is_rest = True, tok_len = 16\<rparr> '' c''"
    using T1 [THEN conjunct1] by (simp only: u l c)
  have 2: "unat (spec_len ''16 c'') = 16"
    using T1 v by simp
  have 3: "mml_scan ''r8 c'' =
     Token \<lparr>tok_c = CHR ''R'', tok_accidental = 0, tok_is_rest = True, tok_len = 8\<rparr> '' c''"
    using T1 d e u by simp
  have 4: "mml_scan ''r+16 c'' =
     Token \<lparr>tok_c = CHR ''R'', tok_accidental = 0, tok_is_rest = True, tok_len = 4\<rparr> ''+16 c''"
    using T1 m u by simp
  have 5: "mml_scan ''c16 c'' =
     Token \<lparr>tok_c = CHR ''C'', tok_accidental = 0, tok_is_rest = False, tok_len = 16\<rparr> '' c''"
    using T1 n p u l c by simp
  have 6: "mml_scan ''c+16 c'' =
     Token \<lparr>tok_c = CHR ''C'', tok_accidental = 1, tok_is_rest = False, tok_len = 16\<rparr> '' c''"
    using T1 n m u l c by simp
  have 7: "mml_scan ''r'' =
     Token \<lparr>tok_c = CHR ''R'', tok_accidental = 0, tok_is_rest = True, tok_len = 4\<rparr> []"
    using T2 z u by simp
  from r n m p d v z 1 2 3 4 5 6 7 show ?thesis by simp
qed

text \<open>
  C6, as first stated, fails on the length: after the \<open>r\<close> of the score \<open>r8\<close> the scan
  goes on and takes the \<open>8\<close> into the rest, which gets the length 8 and is held for
  250 ms. Had the rest ended at its letter, it would have the default length 4, with the
  cursor on the \<open>8\<close>.
\<close>

theorem rest_length_is_parsed:
  "mml_scan ''r8'' =
     Token \<lparr>tok_c = CHR ''R'', tok_accidental = 0, tok_is_rest = True, tok_len = 8\<rparr> [] \<and>
   mml_scan ''r8'' \<noteq>
     Token \<lparr>tok_c = CHR ''R'', tok_accidental = 0, tok_is_rest = True, tok_len = 4\<rparr> ''8'' \<and>
   mml_loop 4 ''r8'' =
     [watch_clear_pixel 0 12, watch_clear_pixel 0 15, watch_display_string '' '' 0,
      watch_set_buzzer_off, mml_delay_ms 250]"
proof -
  have 1: "mml_scan ''r8'' =
     Token \<lparr>tok_c = CHR ''R'', tok_accidental = 0, tok_is_rest = True, tok_len = 8\<rparr> []"
    by code_simp
  have 2: "mml_loop 4 ''r8'' =
     [watch_clear_pixel 0 12, watch_clear_pixel 0 15, watch_display_string '' '' 0,
      watch_set_buzzer_off, mml_delay_ms 250]"
    by code_simp
  from 1 2 show ?thesis by simp
qed

text \<open>A note letter, unlike a rest, takes the accidental that follows it.\<close>

lemma note_takes_accidental:
  "mml_scan ''c+8'' =
     Token \<lparr>tok_c = CHR ''C'', tok_accidental = 1, tok_is_rest = False, tok_len = 8\<rparr> []"
  by code_simp

section \<open>Playback\<close>

text \<open>
  C4: with the tempo 120 and the default length 4 of the face, playing the score \<open>c4\<close>
  makes exactly one call that sounds a tone, for 500 ms; the calls after it clear the
  accidental pixels, blank the note digit and switch the buzzer off, and the light-button
  branch that plays the score leaves \<open>is_playing\<close> false.
\<close>

theorem play_c4:
  "tempo_bpm = 120 \<and> default_len = 4 \<and>
   mml_play_blocking (Some ''c4'') =
     [watch_clear_pixel 0 12, watch_clear_pixel 0 15,
      watch_display_string ''c'' 0,
      watch_buzzer_play_note (BUZZER_NOTE 27) 500,
      watch_clear_pixel 0 12, watch_clear_pixel 0 15,
      watch_display_string '' '' 0,
      watch_clear_pixel 0 12, watch_clear_pixel 0 15, watch_set_buzzer_off] \<and>
   tone_calls (mml_play_blocking (Some ''c4'')) = [(BUZZER_NOTE 27, 500)] \<and>
   light_button_up (Some ''c4'') \<lparr>is_playing = False\<rparr> =
     (\<lparr>is_playing = False\<rparr>,
      [watch_clear_display, watch_display_string ''play'' 5] @
      mml_play_blocking (Some ''c4'') @ [watch_display_string ''done'' 5])"
proof -
  have 1: "tempo_bpm = 120" by (simp add: tempo_bpm_def)
  have 2: "default_len = 4" by (simp add: default_len_def)
  have 3: "mml_play_blocking (Some ''c4'') =
     [watch_clear_pixel 0 12, watch_clear_pixel 0 15,
      watch_display_string ''c'' 0,
      watch_buzzer_play_note (BUZZER_NOTE 27) 500,
      watch_clear_pixel 0 12, watch_clear_pixel 0 15,
      watch_display_string '' '' 0,
      watch_clear_pixel 0 12, watch_clear_pixel 0 15, watch_set_buzzer_off]"
    by code_simp
  have 4: "tone_calls (mml_play_blocking (Some ''c4'')) = [(BUZZER_NOTE 27, 500)]"
    unfolding 3 by simp
  have 5: "light_button_up (Some ''c4'') \<lparr>is_playing = False\<rparr> =
     (\<lparr>is_playing = False\<rparr>,
      [watch_clear_display, watch_display_string ''play'' 5] @
      mml_play_blocking (Some ''c4'') @ [watch_display_string ''done'' 5])"
    by (simp add: light_button_up_def)
  from 1 2 3 4 5 show ?thesis by blast
qed

section \<open>The face\<close>

text \<open>
  C7: when the light button comes up while \<open>is_playing\<close> is set, the handler makes no
  call at all and returns the state as it was; no playback is started.
\<close>

theorem busy_is_noop:
  assumes "is_playing state"
  shows "mml_player_face_loop dflt EVENT_LIGHT_BUTTON_UP state = (True, state, []) \<and>
         light_button_up mml state = (state, [])"
  using assms by (simp add: mml_player_face_loop_def light_button_up_def)

theorem busy_is_noop_witness:
  "is_playing \<lparr>is_playing = True\<rparr> \<and>
   mml_player_face_loop True EVENT_LIGHT_BUTTON_UP \<lparr>is_playing = True\<rparr> =
     (True, \<lparr>is_playing = True\<rparr>, [])"
proof -
  have p: "is_playing \<lparr>is_playing = True\<rparr>" by simp
  from busy_is_noop [OF p, of True] p show ?thesis by simp
qed

text \<open>With \<open>is_playing\<close> clear the same event does start the tune.\<close>

lemma idle_starts_playback:
  "\<not> is_playing state \<Longrightarrow>
   mml_player_face_loop dflt EVENT_LIGHT_BUTTON_UP state =
     (True, state,
      [watch_clear_display, watch_display_string ''play'' 5] @
      mml_play_blocking (Some demo_mml) @ [watch_display_string ''done'' 5])"
  by (simp add: mml_player_face_loop_def light_button_up_def)

section \<open>Characters that start no token\<close>

text \<open>
  C8: a character of the score (so not the terminator) that is neither a space, a tab nor
  a bar, and neither of the letters A to G, R and P in either case, is passed over when a
  token would start at it: the cursor moves to the next character, no token comes of it and
  no call is made, and the loop goes on with the rest of the score. The scan has no error
  result.
\<close>

theorem unrecognized_is_skipped:
  assumes "ch \<noteq> NUL"
    and "ch \<notin> {CHR '' '', CHR 0x09, CHR ''|''}"
    and "ch \<notin> set ''ABCDEFGRPabcdefgrp''"
  shows "mml_scan (ch # p) = Continue p \<and>
         mml_tokens (ch # p) = mml_tokens p \<and>
         mml_loop octave (ch # p) = mml_loop octave p"
proof -
  have scan: "mml_scan (ch # p) = Continue p"
    using assms(1,2) toupper_unrecognized [OF assms(3)]
    by (auto simp: mml_scan_def Let_def)
  then show ?thesis
    using assms(1) by (simp add: mml_tokens.simps [of "ch # p"] mml_loop.simps [of octave "ch # p"])
qed

theorem unrecognized_is_skipped_witness:
  "CHR ''x'' \<noteq> NUL \<and> CHR ''x'' \<notin> {CHR '' '', CHR 0x09, CHR ''|''} \<and>
   CHR ''x'' \<notin> set ''ABCDEFGRPabcdefgrp'' \<and>
   mml_scan ''x+4'' = Continue ''+4'' \<and>
   mml_tokens ''x+4'' = mml_tokens ''+4'' \<and>
   mml_loop 4 ''x+4'' = mml_loop 4 ''+4''"
proof -
  have 1: "CHR ''x'' \<noteq> NUL" by (simp add: NUL_def)
  have 2: "CHR ''x'' \<notin> {CHR '' '', CHR 0x09, CHR ''|''}" by simp
  have 3: "CHR ''x'' \<notin> set ''ABCDEFGRPabcdefgrp''" by simp
  from unrecognized_is_skipped [OF 1 2 3, of "''+4''" 4] 1 2 3 show ?thesis by simp
qed

section \<open>The end of the tune\<close>

subsection \<open>The cursor only moves forward\<close>

lemma skip_seps_drop: "\<exists>k. skip_seps p = drop k p"
proof (induction p)
  case Nil
  then show ?case by simp
next
  case (Cons x xs)
  then obtain k where k: "skip_seps xs = drop k xs" by blast
  show ?case
  proof (cases "x = CHR '' '' \<or> x = CHR 0x09 \<or> x = CHR ''|''")
    case True
    with k have "skip_seps (x # xs) = drop (Suc k) (x # xs)" by simp
    then show ?thesis by blast
  next
    case False
    then have "skip_seps (x # xs) = drop 0 (x # xs)" by simp
    then show ?thesis by blast
  qed
qed

lemma parse_len_drop: "\<exists>k. snd (parse_len p) = drop k p"
  unfolding parse_len_dropWhile dropWhile_eq_drop by blast

lemma tl_drop: "tl p = drop 1 p"
  by (simp add: drop_Suc)

lemma with_len_drop:
  assumes "with_len c a r p = Token t p'"
  shows "\<exists>k. p' = drop k p"
proof -
  from assms have "p' = snd (parse_len p)"
    by (auto simp: with_len_def split: prod.splits)
  then show ?thesis using parse_len_drop [of p] by simp
qed

lemma mml_scan_drop:
  assumes "mml_scan p = Continue p' \<or> mml_scan p = Token t p'"
  shows "\<exists>k. p' = drop k p"
proof -
  obtain k0 where k0: "skip_seps p = drop k0 p"
    using skip_seps_drop by blast
  let ?q = "skip_seps p"
  from assms have nz: "deref ?q \<noteq> NUL"
    by (auto simp: mml_scan_def Let_def split: if_splits)
  from assms nz have "p' = tl ?q \<or> (\<exists>c a r. with_len c a r (tl ?q) = Token t p' \<or> with_len c a r (tl (tl ?q)) = Token t p')"
    by (auto simp: mml_scan_def Let_def with_len_not_Continue split: if_splits)
  then have "\<exists>k. p' = drop k ?q"
  proof (elim disjE exE)
    assume "p' = tl ?q"
    then have "p' = drop 1 ?q" by (simp add: tl_drop)
    then show ?thesis by blast
  next
    fix c a r
    assume "with_len c a r (tl ?q) = Token t p'"
    then obtain k where "p' = drop k (tl ?q)" using with_len_drop by blast
    then have "p' = drop (k + 1) ?q" by (simp add: tl_drop)
    then show ?thesis by blast
  next
    fix c a r
    assume "with_len c a r (tl (tl ?q)) = Token t p'"
    then obtain k where "p' = drop k (tl (tl ?q))" using with_len_drop by blast
    then have "p' = drop (k + 2) ?q" by (simp add: tl_drop)
    then show ?thesis by blast
  qed
  then obtain k where "p' = drop (k + k0) p"
    unfolding k0 by auto
  then show ?thesis by blast
qed

lemma mml_scan_advances:
  assumes "mml_scan p = Continue p' \<or> mml_scan p = Token t p'"
  shows "\<exists>k. 0 < k \<and> k \<le> length p \<and> p' = drop k p"
proof -
  from assms have less: "length p' < length p"
    using mml_scan_Continue_length mml_scan_Token_length by blast
  obtain k where k: "p' = drop k p"
    using mml_scan_drop [OF assms] by blast
  let ?k = "length p - length p'"
  have "p' = drop ?k p"
  proof (cases "k \<le> length p")
    case True
    with k have "?k = k" by simp
    with k show ?thesis by simp
  next
    case False
    with k show ?thesis by simp
  qed
  with less have "0 < ?k \<and> ?k \<le> length p \<and> p' = drop ?k p" by simp
  then show ?thesis by blast
qed

lemma mml_scan_separators:
  assumes "set p \<subseteq> {CHR '' '', CHR 0x09, CHR ''|''}"
  shows "skip_seps p = []"
  using assms by (induction p) auto

lemma mml_tokens_separators:
  assumes "set p \<subseteq> {CHR '' '', CHR 0x09, CHR ''|''}"
  shows "mml_tokens p = []"
  using mml_scan_separators [OF assms]
  by (simp add: mml_tokens.simps [of p] mml_scan_def)

lemma mml_tokens_length: "length (mml_tokens p) \<le> length p"
proof (induction p rule: mml_tokens.induct)
  case (1 p)
  show ?case
  proof (cases "deref p = NUL")
    case True
    then show ?thesis by (simp add: mml_tokens.simps)
  next
    case False
    show ?thesis
    proof (cases "mml_scan p")
      case Break
      with False show ?thesis by (simp add: mml_tokens.simps [of p])
    next
      case (Continue p')
      with False 1 mml_scan_Continue_length [OF Continue] show ?thesis
        by (simp add: mml_tokens.simps [of p])
    next
      case (Token t p')
      with False 1 mml_scan_Token_length [OF Token] show ?thesis
        by (simp add: mml_tokens.simps [of p])
    qed
  qed
qed

lemma mml_cleanup_calls:
  "mml_cleanup =
     [watch_display_string '' '' 0, watch_clear_pixel 0 12, watch_clear_pixel 0 15,
      watch_set_buzzer_off]"
  by (simp add: mml_cleanup_def display_note_char_def tolower_def NUL_def)

text \<open>
  C9: the loop is defined by recursion on what is left of the score, and every pass that
  stays in the loop moves the cursor forward by at least one character of the score, so
  playback returns for every score, after at most as many tokens as the score has
  characters. What it then has done is the calls of the tokens followed by the four
  calls that blank the note digit, clear the sharp and the flat pixel and switch the buzzer
  off; started with \<open>is_playing\<close> clear, the light-button branch ends with it clear. A
  score of separators only (the empty score among them) has no token, and the four calls
  are all that happens. The two waits, \<open>mml_delay_ms\<close> and \<open>watch_buzzer_play_note\<close>,
  are taken to return.
\<close>

theorem playback_ends_with_cleanup:
  "mml_play_blocking (Some score) =
     concat (map (mml_emit 4) (mml_tokens score)) @
     [watch_display_string '' '' 0, watch_clear_pixel 0 12, watch_clear_pixel 0 15,
      watch_set_buzzer_off] \<and>
   length (mml_tokens score) \<le> length score \<and>
   (mml_scan p = Continue p' \<or> mml_scan p = Token t p' \<longrightarrow>
      (\<exists>k. 0 < k \<and> k \<le> length p \<and> p' = drop k p)) \<and>
   (\<not> is_playing state \<longrightarrow>
      light_button_up (Some score) state =
        (state,
         [watch_clear_display, watch_display_string ''play'' 5] @
         mml_play_blocking (Some score) @ [watch_display_string ''done'' 5]) \<and>
      \<not> is_playing (fst (light_button_up (Some score) state))) \<and>
   (set score \<subseteq> {CHR '' '', CHR 0x09, CHR ''|''} \<longrightarrow>
      mml_tokens score = [] \<and>
      mml_play_blocking (Some score) =
        [watch_display_string '' '' 0, watch_clear_pixel 0 12, watch_clear_pixel 0 15,
         watch_set_buzzer_off])"
proof -
  have play: "mml_play_blocking (Some score) =
     concat (map (mml_emit 4) (mml_tokens score)) @
     [watch_display_string '' '' 0, watch_clear_pixel 0 12, watch_clear_pixel 0 15,
      watch_set_buzzer_off]"
    by (simp add: mml_play_blocking_def mml_loop_tokens mml_cleanup_calls)
  have bound: "length (mml_tokens score) \<le> length score"
    by (rule mml_tokens_length)
  have adv: "mml_scan p = Continue p' \<or> mml_scan p = Token t p' \<longrightarrow>
      (\<exists>k. 0 < k \<and> k \<le> length p \<and> p' = drop k p)"
    using mml_scan_advances by blast
  have idle: "\<not> is_playing state \<longrightarrow>
      light_button_up (Some score) state =
        (state,
         [watch_clear_display, watch_display_string ''play'' 5] @
         mml_play_blocking (Some score) @ [watch_display_string ''done'' 5]) \<and>
      \<not> is_playing (fst (light_button_up (Some score) state))"
    by (simp add: light_button_up_def)
  have seps: "set score \<subseteq> {CHR '' '', CHR 0x09, CHR ''|''} \<longrightarrow>
      mml_tokens score = [] \<and>
      mml_play_blocking (Some score) =
        [watch_display_string '' '' 0, watch_clear_pixel 0 12, watch_clear_pixel 0 15,
         watch_set_buzzer_off]"
    using play mml_tokens_separators [of score] by simp
  from play bound adv idle seps show ?thesis by blast
qed

theorem playback_ends_with_cleanup_witness:
  "mml_scan ''c8 d'' =
     Token \<lparr>tok_c = CHR ''C'', tok_accidental = 0, tok_is_rest = False, tok_len = 8\<rparr> '' d'' \<and>
   (\<exists>k. 0 < k \<and> k \<le> length ''c8 d'' \<and> '' d'' = drop k ''c8 d'') \<and>
   \<not> is_playing \<lparr>is_playing = False\<rparr> \<and>
   \<not> is_playing (fst (light_button_up (Some ''   |  '') \<lparr>is_playing = False\<rparr>)) \<and>
   set ''   |  '' \<subseteq> {CHR '' '', CHR 0x09, CHR ''|''} \<and>
   mml_tokens ''   |  '' = [] \<and>
   mml_play_blocking (Some ''   |  '') =
     [watch_display_string '' '' 0, watch_clear_pixel 0 12, watch_clear_pixel 0 15,
      watch_set_buzzer_off]"
proof -
  have scan: "mml_scan ''c8 d'' =
     Token \<lparr>tok_c = CHR ''C'', tok_accidental = 0, tok_is_rest = False, tok_len = 8\<rparr> '' d''"
    by code_simp
  have idle: "\<not> is_playing \<lparr>is_playing = False\<rparr>" by simp
  have seps: "set ''   |  '' \<subseteq> {CHR '' '', CHR 0x09, CHR ''|''}" by simp
  from playback_ends_with_cleanup
    [of "''   |  ''" "''c8 d''" "'' d''"
      "\<lparr>tok_c = CHR ''C'', tok_accidental = 0, tok_is_rest = False, tok_len = 8\<rparr>"
      "\<lparr>is_playing = False\<rparr>"]
    scan idle seps
  show ?thesis by simp
qed

text \<open>
  C10: for the \<open>NULL\<close> score \<open>mml_play_blocking\<close> makes no call at all, so display,
  pixels and buzzer stay as they are; every other score, the empty one included, ends with
  the four calls of the cleanup.
\<close>

theorem null_score_no_calls:
  "mml_play_blocking None = [] \<and>
   mml_play_blocking (Some score) \<noteq> [] \<and>
   mml_play_blocking (Some []) =
     [watch_display_string '' '' 0, watch_clear_pixel 0 12, watch_clear_pixel 0 15,
      watch_set_buzzer_off] \<and>
   light_button_up None \<lparr>is_playing = False\<rparr> =
     (\<lparr>is_playing = False\<rparr>,
      [watch_clear_display, watch_display_string ''play'' 5, watch_display_string ''done'' 5])"
  by (simp add: mml_play_blocking_def mml_cleanup_calls mml_loop.simps [of _ "[]"]
      light_button_up_def)

end
